theory Spec2Isabelle
  imports Complex_Main
begin

section \<open>JavaScript strings\<close>

text \<open>
  A JavaScript string is modelled as a \<^typ>\<open>string\<close>: a list of characters whose code
  units lie below 256 (the Latin-1 range).  The built-in string methods used by
  \<^verbatim>\<open>script.js\<close> are written out below on that range, following ECMA-262.
\<close>

definition dquote :: char where
  "dquote = CHR 0x22"

definition isWhiteSpace :: "char \<Rightarrow> bool" where
  \<comment> \<open>WhiteSpace and LineTerminator code units below 256: TAB, LF, VT, FF, CR, SP, NBSP.\<close>
  "isWhiteSpace c =
     (c = CHR 0x09 \<or> c = CHR 0x0A \<or> c = CHR 0x0B \<or> c = CHR 0x0C \<or> c = CHR 0x0D \<or>
      c = CHR 0x20 \<or> c = CHR 0xA0)"

definition trimStart :: "string \<Rightarrow> string" where
  "trimStart s = dropWhile isWhiteSpace s"

definition trim :: "string \<Rightarrow> string" where
  "trim s = rev (dropWhile isWhiteSpace (rev (dropWhile isWhiteSpace s)))"

definition startsWith :: "string \<Rightarrow> string \<Rightarrow> bool" where
  "startsWith s p = (take (length p) s = p)"

definition endsWith :: "string \<Rightarrow> string \<Rightarrow> bool" where
  "endsWith s p = (length p \<le> length s \<and> drop (length s - length p) s = p)"

fun includes_str :: "string \<Rightarrow> string \<Rightarrow> bool" where
  "includes_str [] p = (p = [])"
| "includes_str (x # xs) p = (startsWith (x # xs) p \<or> includes_str xs p)"

fun indexOf :: "string \<Rightarrow> char \<Rightarrow> int" where
  "indexOf [] c = - 1"
| "indexOf (x # xs) c =
     (if x = c then 0 else (let i = indexOf xs c in if i = - 1 then - 1 else i + 1))"

definition substring :: "string \<Rightarrow> int \<Rightarrow> int \<Rightarrow> string" where
  \<comment> \<open>\<^verbatim>\<open>s.substring(start, end)\<close>: both arguments are clamped to the string and swapped
      when the first exceeds the second.\<close>
  "substring s start stop =
     (let len = int (length s);
          a = min (max start 0) len;
          b = min (max stop 0) len;
          lo = min a b;
          hi = max a b
      in take (nat (hi - lo)) (drop (nat lo) s))"

definition substringFrom :: "string \<Rightarrow> int \<Rightarrow> string" where
  \<comment> \<open>\<^verbatim>\<open>s.substring(start)\<close>: the end defaults to the length.\<close>
  "substringFrom s start = substring s start (int (length s))"

fun split_str :: "string \<Rightarrow> char \<Rightarrow> string list" where
  \<comment> \<open>\<^verbatim>\<open>s.split(sep)\<close> for a separator of one character; the result is never empty.\<close>
  "split_str [] sep = [[]]"
| "split_str (x # xs) sep =
     (if x = sep then [] # split_str xs sep
      else (case split_str xs sep of [] \<Rightarrow> [[x]] | r # rs \<Rightarrow> (x # r) # rs))"

fun replacePair :: "char \<Rightarrow> char \<Rightarrow> string \<Rightarrow> string \<Rightarrow> string" where
  \<comment> \<open>\<^verbatim>\<open>s.replace(/ab/g, rep)\<close> for two literal characters: matches are taken left to
      right and do not overlap.\<close>
  "replacePair a b rep (x # y # zs) =
     (if x = a \<and> y = b then rep @ replacePair a b rep zs
      else x # replacePair a b rep (y # zs))"
| "replacePair a b rep xs = xs"

definition replaceChar :: "char \<Rightarrow> string \<Rightarrow> string \<Rightarrow> string" where
  \<comment> \<open>\<^verbatim>\<open>s.replace(/a/g, rep)\<close> for one literal character.\<close>
  "replaceChar a rep s = concat (map (\<lambda>x. if x = a then rep else [x]) s)"

definition toLowerChar :: "char \<Rightarrow> char" where
  \<comment> \<open>A-Z and the Latin-1 capitals (all of 0xC0-0xDE but the multiplication sign).\<close>
  "toLowerChar c =
     (let n = (of_char c :: nat)
      in if (65 \<le> n \<and> n \<le> 90) \<or> (192 \<le> n \<and> n \<le> 214) \<or> (216 \<le> n \<and> n \<le> 222)
         then char_of (n + 32) else c)"

definition toLowerCase :: "string \<Rightarrow> string" where
  "toLowerCase s = map toLowerChar s"

definition elemAt :: "'a list \<Rightarrow> int \<Rightarrow> 'a option" where
  \<comment> \<open>\<^verbatim>\<open>xs[i]\<close>: \<^verbatim>\<open>undefined\<close> (here \<^const>\<open>None\<close>) outside the array.\<close>
  "elemAt xs i = (if 0 \<le> i \<and> i < int (length xs) then Some (xs ! nat i) else None)"

fun findIndex :: "('a \<Rightarrow> bool) \<Rightarrow> 'a list \<Rightarrow> int" where
  "findIndex P [] = - 1"
| "findIndex P (x # xs) =
     (if P x then 0 else (let i = findIndex P xs in if i = - 1 then - 1 else i + 1))"

section \<open>JavaScript numbers\<close>

text \<open>
  A Number is an IEEE 754 binary64 value.  A finite one is represented by the real number
  it denotes.  The two zeros are not told apart: the program only adds numbers to a total
  that starts at \<open>+0\<close> (where \<open>-0\<close> behaves as \<open>+0\<close>) and prints the total with
  \<^verbatim>\<open>toFixed\<close>, which prints both zeros alike.
\<close>

datatype number = NaN | PosInfinity | NegInfinity | Finite real

definition isNaN :: "number \<Rightarrow> bool" where
  "isNaN v = (case v of NaN \<Rightarrow> True | _ \<Rightarrow> False)"

fun bitLength :: "nat \<Rightarrow> nat" where
  "bitLength n = (if n = 0 then 0 else Suc (bitLength (n div 2)))"

declare bitLength.simps [simp del]

definition powInt :: "real \<Rightarrow> int \<Rightarrow> real" where
  "powInt b k = (if 0 \<le> k then b ^ nat k else 1 / b ^ nat (- k))"

definition floorLog2 :: "real \<Rightarrow> int" where
  \<comment> \<open>for \<open>0 < x\<close>: the \<open>e\<close> with \<open>2^e \<le> x < 2^(e+1)\<close>\<close>
  "floorLog2 x =
     (if 1 \<le> x then int (bitLength (nat \<lfloor>x\<rfloor>)) - 1
      else - int (bitLength (nat (\<lceil>1 / x\<rceil> - 1))))"

definition roundHalfEven :: "real \<Rightarrow> int" where
  "roundHalfEven v =
     (let n = \<lfloor>v\<rfloor>; r = v - of_int n
      in if r < 1 / 2 then n else if 1 / 2 < r then n + 1 else if even n then n else n + 1)"

definition roundToDouble :: "real \<Rightarrow> number" where
  \<comment> \<open>The Number value for a real: round to nearest, ties to even, on 53 bits of
      significand; the spacing below \<open>2^-1022\<close> is that of the subnormals, and what rounds
      to \<open>2^1024\<close> is an infinity.\<close>
  "roundToDouble x =
     (if x = 0 then Finite 0
      else let a = \<bar>x\<bar>;
               q = max (floorLog2 a) (- 1022) - 52;
               y = of_int (roundHalfEven (a / powInt 2 q)) * powInt 2 q
           in if powInt 2 1024 \<le> y then (if x < 0 then NegInfinity else PosInfinity)
              else Finite (if x < 0 then - y else y))"

fun numberAdd :: "number \<Rightarrow> number \<Rightarrow> number" where
  \<comment> \<open>\<^verbatim>\<open>a + b\<close> on Numbers\<close>
  "numberAdd NaN _ = NaN"
| "numberAdd _ NaN = NaN"
| "numberAdd PosInfinity NegInfinity = NaN"
| "numberAdd NegInfinity PosInfinity = NaN"
| "numberAdd PosInfinity _ = PosInfinity"
| "numberAdd _ PosInfinity = PosInfinity"
| "numberAdd NegInfinity _ = NegInfinity"
| "numberAdd _ NegInfinity = NegInfinity"
| "numberAdd (Finite x) (Finite y) = roundToDouble (x + y)"

subsection \<open>\<^verbatim>\<open>parseFloat\<close>\<close>

definition isDigit :: "char \<Rightarrow> bool" where
  "isDigit c = (48 \<le> (of_char c :: nat) \<and> (of_char c :: nat) \<le> 57)"

definition digitsToNat :: "string \<Rightarrow> nat" where
  "digitsToNat ds = foldl (\<lambda>acc c. 10 * acc + (of_char c - 48)) 0 ds"

definition splitSign :: "string \<Rightarrow> bool \<times> string" where
  \<comment> \<open>an optional sign: whether it is a minus, and the rest\<close>
  "splitSign s =
     (case s of
        [] \<Rightarrow> (False, [])
      | c # r \<Rightarrow> if c = CHR ''-'' then (True, r) else if c = CHR ''+'' then (False, r)
                 else (False, s))"

definition exponentPart :: "string \<Rightarrow> int" where
  \<comment> \<open>the value of an ExponentPart at the start of the string, 0 when there is none\<close>
  "exponentPart s =
     (case s of
        [] \<Rightarrow> 0
      | c # r \<Rightarrow>
          if c = CHR ''e'' \<or> c = CHR ''E'' then
            (let (neg, d) = splitSign r; ds = takeWhile isDigit d
             in if ds = [] then 0
                else if neg then - int (digitsToNat ds) else int (digitsToNat ds))
          else 0)"

definition parseFloat :: "string \<Rightarrow> number" where
  \<comment> \<open>Leading white space is skipped; the longest prefix that is a StrDecimalLiteral is
      converted, and \<^const>\<open>NaN\<close> is returned when there is none.  The conversion is the
      correctly rounded one.\<close>
  "parseFloat s =
     (let (neg, u) = splitSign (trimStart s)
      in if startsWith u ''Infinity'' then (if neg then NegInfinity else PosInfinity)
         else
           let ip = takeWhile isDigit u;
               r1 = dropWhile isDigit u;
               (fp, r2) = (case r1 of
                             [] \<Rightarrow> ([], r1)
                           | c # r \<Rightarrow> if c = CHR ''.''
                                      then (takeWhile isDigit r, dropWhile isDigit r)
                                      else ([], r1))
           in if ip = [] \<and> fp = [] then NaN
              else
                let mv = real (digitsToNat (ip @ fp)) *
                           powInt 10 (exponentPart r2 - int (length fp))
                in roundToDouble (if neg then - mv else mv))"

definition toStringCell :: "string option \<Rightarrow> string" where
  \<comment> \<open>\<^verbatim>\<open>parseFloat\<close> applies ToString to its argument: \<^verbatim>\<open>undefined\<close> becomes a string.\<close>
  "toStringCell v = (case v of None \<Rightarrow> ''undefined'' | Some s \<Rightarrow> s)"

subsection \<open>\<^verbatim>\<open>toFixed\<close>\<close>

definition digitChar :: "nat \<Rightarrow> char" where
  "digitChar d = ''0123456789'' ! d"

fun decimalDigits :: "nat \<Rightarrow> string" where
  "decimalDigits n =
     (if n < 10 then [digitChar n] else decimalDigits (n div 10) @ [digitChar (n mod 10)])"

declare decimalDigits.simps [simp del]

definition toFixed :: "(real \<Rightarrow> string) \<Rightarrow> number \<Rightarrow> nat \<Rightarrow> string" where
  \<comment> \<open>\<^verbatim>\<open>x.toFixed(f)\<close> for \<open>f \<le> 100\<close>.  From \<open>10^21\<close> on the digits are those of
      Number::toString, which ECMA-262 leaves to the implementation in the last digit:
      that function is the parameter \<open>bigToString\<close>.\<close>
  "toFixed bigToString v f =
     (case v of
        NaN \<Rightarrow> ''NaN''
      | PosInfinity \<Rightarrow> ''Infinity''
      | NegInfinity \<Rightarrow> ''-Infinity''
      | Finite x \<Rightarrow>
          (let s = (if x < 0 then ''-'' else '''');
               a = \<bar>x\<bar>
           in if 10 ^ 21 \<le> a then s @ bigToString a
              else
                let n = nat \<lfloor>a * 10 ^ f + 1 / 2\<rfloor>;
                    m = (if n = 0 then ''0'' else decimalDigits n);
                    m' = (if f \<noteq> 0 \<and> length m \<le> f
                          then replicate (f + 1 - length m) (CHR ''0'') @ m else m)
                in if f \<noteq> 0
                   then s @ take (length m' - f) m' @ ''.'' @ drop (length m' - f) m'
                   else s @ m'))"

section \<open>The program\<close>

datatype error =
    InvalidDataUrl           \<comment> \<open>'Invalid data URL'\<close>
  | InvalidDataUrlFormat     \<comment> \<open>'Invalid data URL format'\<close>
  | Base64DecodeFailed       \<comment> \<open>'Failed to decode base64 data'\<close>
  | AttachmentNotFound       \<comment> \<open>'CSV attachment not found'\<close>
  | InvalidMimeType          \<comment> \<open>'Invalid MIME type for CSV data'\<close>
  | FetchFailed nat string   \<comment> \<open>'Failed to fetch data: status statusText'\<close>
  | NoSalesColumn            \<comment> \<open>'Could not identify sales column'\<close>
  | URIError                 \<comment> \<open>thrown by \<^verbatim>\<open>decodeURIComponent\<close>\<close>
  | NetworkError             \<comment> \<open>a rejected \<^verbatim>\<open>fetch\<close>\<close>
  | TypeError                \<comment> \<open>a property read on \<^verbatim>\<open>undefined\<close>\<close>

subsection \<open>\<^verbatim>\<open>parseDataUrl\<close>\<close>

record dataUrlParts =
  mime :: string
  isBase64 :: bool
  payload :: string

definition parseDataUrl :: "string \<Rightarrow> error + dataUrlParts" where
  "parseDataUrl url =
     (if \<not> startsWith url ''data:'' then Inl InvalidDataUrl
      else
        let commaIndex = indexOf url (CHR '','')
        in if commaIndex = - 1 then Inl InvalidDataUrlFormat
           else
             let header = substring url 5 commaIndex;
                 payload = substringFrom url (commaIndex + 1);
                 parts = split_str header (CHR '';'');
                 mime = (case elemAt parts 0 of
                           None \<Rightarrow> ''text/plain''
                         | Some p \<Rightarrow> if p = [] then ''text/plain'' else p);
                 isBase64 = (''base64'' \<in> set parts)
             in Inr \<lparr>mime = mime, isBase64 = isBase64, payload = payload\<rparr>)"

subsection \<open>\<^verbatim>\<open>parseCsv\<close>\<close>

record parsedTable =
  headers :: "string list option"
  rows :: "string list list"

definition normalizeLineEndings :: "string \<Rightarrow> string" where
  "normalizeLineEndings text =
     replaceChar (CHR 0x0D) [CHR 0x0A] (replacePair (CHR 0x0D) (CHR 0x0A) [CHR 0x0A] text)"

definition csvLines :: "string \<Rightarrow> string list" where
  "csvLines text =
     filter (\<lambda>line. trim line \<noteq> []) (split_str (normalizeLineEndings text) (CHR 0x0A))"

definition delimiters :: "char list" where
  "delimiters = [CHR '','', CHR '';'', CHR 0x09]"

definition countMatches :: "string \<Rightarrow> char \<Rightarrow> nat" where
  \<comment> \<open>\<^verbatim>\<open>(line.match(new RegExp(delim, 'g')) || []).length\<close> for a literal character\<close>
  "countMatches line delim = length (filter (\<lambda>c. c = delim) line)"

definition detectStep :: "string \<Rightarrow> char \<times> nat \<Rightarrow> char \<Rightarrow> char \<times> nat" where
  \<comment> \<open>one round of the loop over the candidates, on the pair of
      \<^verbatim>\<open>delimiter\<close> and \<^verbatim>\<open>maxCount\<close>\<close>
  "detectStep line st delim =
     (let count = countMatches line delim
      in if snd st < count then (delim, count) else st)"

definition detectDelimiter :: "string \<Rightarrow> char" where
  "detectDelimiter line = fst (foldl (detectStep line) (CHR '','', 0) delimiters)"

definition unquoteField :: "string \<Rightarrow> string" where
  "unquoteField field =
     (if startsWith field [dquote] \<and> endsWith field [dquote]
      then replacePair dquote dquote [dquote] (substring field 1 (int (length field) - 1))
      else field)"

definition parseLine :: "char \<Rightarrow> string \<Rightarrow> string list" where
  "parseLine delimiter line = map unquoteField (split_str line delimiter)"

definition parseCsv :: "string \<Rightarrow> error + parsedTable" where
  "parseCsv text =
     (let lines = csvLines text
      in if length lines = 0 then Inr \<lparr>headers = Some [], rows = []\<rparr>
         else
           (case elemAt lines 0 of
              None \<Rightarrow> Inl TypeError
            | Some line0 \<Rightarrow>
                let delimiter = detectDelimiter line0;
                    parsed = map (parseLine delimiter) lines
                in (case elemAt parsed 0 of
                      None \<Rightarrow> Inl TypeError
                    | Some firstRow \<Rightarrow>
                        let hasHeader = list_all (\<lambda>cell. isNaN (parseFloat cell)) firstRow
                        in if hasHeader
                           then Inr \<lparr>headers = Some firstRow, rows = tl parsed\<rparr>
                           else Inr \<lparr>headers = None, rows = parsed\<rparr>)))"

subsection \<open>The browser\<close>

text \<open>
  The built-ins of the browser that the program calls on decoded or fetched data are
  parameters of the model.  \<^verbatim>\<open>atob\<close> and \<^verbatim>\<open>decodeURIComponent\<close> throw on malformed
  input (\<^const>\<open>None\<close>); a \<^verbatim>\<open>TextDecoder\<close> replaces what it cannot decode and never
  throws; \<^verbatim>\<open>fetch\<close> rejects (\<^const>\<open>None\<close>) or resolves to a response, whose
  \<^verbatim>\<open>text()\<close> rejects (\<^const>\<open>None\<close>) or resolves to a string.  The last field is
  Number::toString on the reals from \<open>10^21\<close> on, as \<^const>\<open>toFixed\<close> uses it.
\<close>

record response =
  ok :: bool
  status :: nat
  statusText :: string
  body :: "string option"

record platform =
  atob :: "string \<Rightarrow> string option"
  textDecode :: "string \<Rightarrow> string"
  decodeURIComponent :: "string \<Rightarrow> string option"
  fetch :: "string \<Rightarrow> response option"
  numberToString :: "real \<Rightarrow> string"

definition decodeBase64ToText :: "platform \<Rightarrow> string \<Rightarrow> error + string" where
  \<comment> \<open>The bytes of the array are the code units of the binary string, one for one.\<close>
  "decodeBase64ToText plat b64 =
     (case atob plat b64 of
        None \<Rightarrow> Inl Base64DecodeFailed
      | Some binary \<Rightarrow> Inr (textDecode plat binary))"

subsection \<open>\<^verbatim>\<open>init\<close>: obtaining the text\<close>

definition decodePayload :: "platform \<Rightarrow> dataUrlParts \<Rightarrow> error + string" where
  \<comment> \<open>lines 112-120\<close>
  "decodePayload plat parts =
     (if \<not> includes_str (mime parts) ''csv'' \<and> \<not> includes_str (mime parts) ''text''
      then Inl InvalidMimeType
      else if isBase64 parts then decodeBase64ToText plat (payload parts)
      else (case decodeURIComponent plat (payload parts) of
              None \<Rightarrow> Inl URIError
            | Some csvText \<Rightarrow> Inr csvText))"

definition loadCsvText :: "platform \<Rightarrow> string \<Rightarrow> error + string" where
  \<comment> \<open>lines 109-128\<close>
  "loadCsvText plat url =
     (if startsWith url ''data:'' then
        (case parseDataUrl url of
           Inl e \<Rightarrow> Inl e
         | Inr parts \<Rightarrow> decodePayload plat parts)
      else
        (case fetch plat url of
           None \<Rightarrow> Inl NetworkError
         | Some resp \<Rightarrow>
             if \<not> ok resp then Inl (FetchFailed (status resp) (statusText resp))
             else (case body resp of
                     None \<Rightarrow> Inl NetworkError
                   | Some csvText \<Rightarrow> Inr csvText)))"

subsection \<open>\<^verbatim>\<open>init\<close>: the sales column and the total\<close>

definition headerMatches :: "string \<Rightarrow> bool" where
  "headerMatches header =
     (includes_str (toLowerCase header) ''sales'' \<or> includes_str (toLowerCase header) ''sale'')"

definition cellNumber :: "string list \<Rightarrow> int \<Rightarrow> number" where
  \<comment> \<open>\<^verbatim>\<open>parseFloat(row[i])\<close>\<close>
  "cellNumber row i = parseFloat (toStringCell (elemAt row i))"

definition columnIsNumeric :: "string list list \<Rightarrow> int \<Rightarrow> bool" where
  \<comment> \<open>\<^verbatim>\<open>rows.every(row => !isNaN(parseFloat(row[i])))\<close>\<close>
  "columnIsNumeric rs i = list_all (\<lambda>row. \<not> isNaN (cellNumber row i)) rs"

function scanColumns :: "string list list \<Rightarrow> int \<Rightarrow> int \<Rightarrow> int" where
  \<comment> \<open>the loop of lines 146-151 from \<open>i\<close> on, \<open>n\<close> being \<^verbatim>\<open>rows[0].length\<close>; the result is
      the new \<^verbatim>\<open>salesColumnIndex\<close>\<close>
  "scanColumns rs n i =
     (if i < n then (if columnIsNumeric rs i then i else scanColumns rs n (i + 1)) else - 1)"
  by pat_completeness auto
termination
  by (relation "measure (\<lambda>(rs, n, i). nat (n - i))") auto

declare scanColumns.simps [simp del]

definition findSalesColumn :: "parsedTable \<Rightarrow> error + int" where
  \<comment> \<open>lines 134-157\<close>
  "findSalesColumn t =
     (let byName = (case headers t of
                      None \<Rightarrow> - 1
                    | Some hs \<Rightarrow> findIndex headerMatches hs)
      in if byName = - 1 then
           (if 0 < length (rows t) then
              (case elemAt (rows t) 0 of
                 None \<Rightarrow> Inl TypeError
               | Some row0 \<Rightarrow>
                   let salesColumnIndex = scanColumns (rows t) (int (length row0)) 0
                   in if salesColumnIndex = - 1 then Inl NoSalesColumn
                      else Inr salesColumnIndex)
            else Inl NoSalesColumn)
         else Inr byName)"

definition addRow :: "int \<Rightarrow> number \<Rightarrow> string list \<Rightarrow> number" where
  \<comment> \<open>the body of the loop of lines 161-166\<close>
  "addRow salesColumnIndex totalSales row =
     (let v = cellNumber row salesColumnIndex
      in if \<not> isNaN v then numberAdd totalSales v else totalSales)"

definition totalSales :: "string list list \<Rightarrow> int \<Rightarrow> number" where
  \<comment> \<open>lines 160-166\<close>
  "totalSales rs salesColumnIndex = foldl (addRow salesColumnIndex) (Finite 0) rs"

definition processCsv :: "string \<Rightarrow> error + number" where
  \<comment> \<open>lines 131-166\<close>
  "processCsv csvText =
     (case parseCsv csvText of
        Inl e \<Rightarrow> Inl e
      | Inr t \<Rightarrow>
          (case findSalesColumn t of
             Inl e \<Rightarrow> Inl e
           | Inr salesColumnIndex \<Rightarrow> Inr (totalSales (rows t) salesColumnIndex)))"

subsection \<open>\<^verbatim>\<open>init\<close>: the page\<close>

record element =
  textContent :: string
  classList :: "string set"

definition showSuccess :: "platform \<Rightarrow> number \<Rightarrow> element \<Rightarrow> element" where
  \<comment> \<open>lines 169-171\<close>
  "showSuccess plat v el =
     el\<lparr>textContent := toFixed (numberToString plat) v 2,
        classList := insert ''success'' (classList el - {''loading'', ''error''})\<rparr>"

definition showError :: "element \<Rightarrow> element" where
  \<comment> \<open>lines 175-177\<close>
  "showError el =
     el\<lparr>textContent := ''Error loading data'',
        classList := insert ''error'' (classList el - {''loading'', ''success''})\<rparr>"

definition display :: "platform \<Rightarrow> error + number \<Rightarrow> element \<Rightarrow> element" where
  \<comment> \<open>the \<^verbatim>\<open>try\<close> and its \<^verbatim>\<open>catch\<close>\<close>
  "display plat r el = (case r of Inl e \<Rightarrow> showError el | Inr v \<Rightarrow> showSuccess plat v el)"

record attachment =
  name :: string
  url :: string

definition attachments :: "attachment list" where
  "attachments =
     [\<lparr>name = ''data.csv'',
       url = ''data:text/csv;base64,UHJvZHVjdHMsU2FsZXMKUGhvbmVzLDEwMDAKQm9va3MsMTIzLjQ1Ck5vdGVib29rcywxMTEuMTEK''\<rparr>]"

definition initWith :: "platform \<Rightarrow> attachment list \<Rightarrow> element \<Rightarrow> element" where
  \<comment> \<open>\<^verbatim>\<open>init\<close> with the list of attachments as a parameter\<close>
  "initWith plat atts el =
     display plat
       (case find (\<lambda>att. name att = ''data.csv'') atts of
          None \<Rightarrow> Inl AttachmentNotFound
        | Some csvAttachment \<Rightarrow>
            (case loadCsvText plat (url csvAttachment) of
               Inl e \<Rightarrow> Inl e
             | Inr csvText \<Rightarrow> processCsv csvText))
       el"

definition init :: "platform \<Rightarrow> element \<Rightarrow> element" where
  "init plat el = initWith plat attachments el"

subsection \<open>A browser for the examples\<close>

text \<open>
  The examples below need some browser.  This one hands every payload back unchanged
  and rejects every fetch; no statement below depends on what it decodes.
\<close>

definition standInBrowser :: platform where
  "standInBrowser =
     \<lparr>atob = Some, textDecode = id, decodeURIComponent = Some,
      fetch = (\<lambda>u. None), numberToString = (\<lambda>x. [])\<rparr>"

section \<open>Strings: auxiliary facts\<close>

lemma split_str_not_Nil: "split_str s c \<noteq> []"
  by (induction s) (auto split: list.splits)

lemma includes_str_iff: "includes_str s p \<longleftrightarrow> (\<exists>a b. s = a @ p @ b)"
proof (induction s)
  case Nil
  then show ?case by auto
next
  case (Cons x xs)
  have "startsWith (x # xs) p \<longleftrightarrow> (\<exists>b. x # xs = p @ b)"
    unfolding startsWith_def
    by (metis append_eq_conv_conj append_take_drop_id)
  moreover have "(\<exists>a b. x # xs = a @ p @ b) \<longleftrightarrow>
      (\<exists>b. x # xs = p @ b) \<or> (\<exists>a b. xs = a @ p @ b)"
  proof
    assume "\<exists>a b. x # xs = a @ p @ b"
    then obtain a b where ab: "x # xs = a @ p @ b" by blast
    show "(\<exists>b. x # xs = p @ b) \<or> (\<exists>a b. xs = a @ p @ b)"
    proof (cases a)
      case Nil
      with ab show ?thesis by auto
    next
      case (Cons y ys)
      with ab have "xs = ys @ p @ b" by simp
      then show ?thesis by blast
    qed
  next
    assume "(\<exists>b. x # xs = p @ b) \<or> (\<exists>a b. xs = a @ p @ b)"
    then show "\<exists>a b. x # xs = a @ p @ b"
    proof
      assume "\<exists>b. x # xs = p @ b"
      then show ?thesis by (metis append_Nil)
    next
      assume "\<exists>a b. xs = a @ p @ b"
      then obtain a b where "xs = a @ p @ b" by blast
      then have "x # xs = (x # a) @ p @ b" by simp
      then show ?thesis by blast
    qed
  qed
  ultimately show ?case using Cons.IH by simp
qed

lemma indexOf_first: "c \<notin> set h \<Longrightarrow> indexOf (h @ c # r) c = int (length h)"
proof (induction h)
  case Nil
  then show ?case by simp
next
  case (Cons x xs)
  then show ?case by (auto simp: Let_def)
qed

lemma substring_middle:
  "substring (a @ b @ c) (int (length a)) (int (length a) + int (length b)) = b"
proof -
  have "min (max (int (length a)) 0) (int (length (a @ b @ c))) = int (length a)"
    by simp
  moreover have "min (max (int (length a) + int (length b)) 0) (int (length (a @ b @ c)))
      = int (length a) + int (length b)"
    by simp
  ultimately show ?thesis
    by (simp add: substring_def Let_def)
qed

lemma substringFrom_suffix: "substringFrom (a @ c) (int (length a)) = c"
proof -
  have "min (max (int (length a)) 0) (int (length (a @ c))) = int (length a)"
    by simp
  moreover have "min (max (int (length (a @ c))) 0) (int (length (a @ c))) = int (length (a @ c))"
    by simp
  ultimately show ?thesis
    by (simp add: substringFrom_def substring_def Let_def)
qed

lemma elemAt_0: "elemAt (x # xs) 0 = Some x"
  by (simp add: elemAt_def)

lemma startsWith_single: "startsWith f [c] \<longleftrightarrow> f \<noteq> [] \<and> hd f = c"
  by (cases f) (auto simp: startsWith_def)

lemma endsWith_single: "endsWith f [c] \<longleftrightarrow> f \<noteq> [] \<and> last f = c"
proof (cases f rule: rev_cases)
  case Nil
  then show ?thesis by (simp add: endsWith_def)
next
  case (snoc ys y)
  then show ?thesis by (auto simp: endsWith_def)
qed

lemma substring_inner:
  assumes "2 \<le> length f"
  shows "substring f 1 (int (length f) - 1) = butlast (tl f)"
proof -
  have a: "min (max 1 0) (int (length f)) = 1"
    using assms by simp
  have b: "min (max (int (length f) - 1) 0) (int (length f)) = int (length f) - 1"
    using assms by simp
  have "take (length f - 2) (drop 1 f) = butlast (tl f)"
    by (simp add: butlast_conv_take drop_Suc numeral_2_eq_2)
  moreover have "nat (int (length f) - 1 - 1) = length f - 2"
    by simp
  ultimately show ?thesis
    using assms by (simp add: substring_def Let_def a b)
qed

lemma substring_single: "substring [c] 1 0 = [c]"
  by (simp add: substring_def Let_def)

lemma set_replacePair: "set (replacePair a b rep s) \<subseteq> set s \<union> set rep"
  by (induction a b rep s rule: replacePair.induct) auto

lemma set_replaceChar: "set (replaceChar a rep s) \<subseteq> set s \<union> set rep"
  by (auto simp: replaceChar_def split: if_splits)

lemma set_split_str: "l \<in> set (split_str s c) \<Longrightarrow> set l \<subseteq> set s"
proof (induction s arbitrary: l)
  case Nil
  then show ?case by simp
next
  case (Cons x xs)
  show ?case
  proof (cases "x = c")
    case True
    with Cons show ?thesis by auto
  next
    case False
    obtain r rs where sp: "split_str xs c = r # rs"
      using split_str_not_Nil [of xs c] by (cases "split_str xs c") auto
    with False Cons.prems have "l = x # r \<or> l \<in> set rs" by simp
    then show ?thesis
    proof
      assume "l = x # r"
      moreover have "set r \<subseteq> set xs" using Cons.IH [of r] sp by simp
      ultimately show ?thesis by auto
    next
      assume "l \<in> set rs"
      then have "set l \<subseteq> set xs" using Cons.IH [of l] sp by simp
      then show ?thesis by auto
    qed
  qed
qed

lemma trim_empty_iff: "trim s = [] \<longleftrightarrow> (\<forall>c \<in> set s. isWhiteSpace c)"
proof
  assume "trim s = []"
  then have d: "\<forall>c \<in> set (dropWhile isWhiteSpace s). isWhiteSpace c"
    by (simp add: trim_def)
  show "\<forall>c \<in> set s. isWhiteSpace c"
  proof (cases "dropWhile isWhiteSpace s = []")
    case True
    then show ?thesis by simp
  next
    case False
    then have "\<not> isWhiteSpace (hd (dropWhile isWhiteSpace s))"
      by (rule hd_dropWhile)
    with d False show ?thesis by (metis hd_in_set)
  qed
next
  assume "\<forall>c \<in> set s. isWhiteSpace c"
  then show "trim s = []"
    by (auto simp: trim_def dest: set_dropWhileD)
qed

section \<open>Numbers: auxiliary facts\<close>

text \<open>
  The definitions of this section compute on numerals by rewriting; \<^const>\<open>bitLength\<close>
  needs its equation once per binary digit.
\<close>

lemma bitLength_numeral [simp]:
  "bitLength 0 = 0"
  "bitLength (Suc 0) = Suc 0"
  "bitLength (numeral (Num.Bit0 n)) = Suc (bitLength (numeral n))"
  "bitLength (numeral (Num.Bit1 n)) = Suc (bitLength (numeral n))"
proof -
  show "bitLength 0 = 0" by (simp add: bitLength.simps)
  show "bitLength (Suc 0) = Suc 0" by (simp add: bitLength.simps)
  have a: "(numeral (Num.Bit0 n) :: nat) div 2 = numeral n"
    by (metis nonzero_mult_div_cancel_left numeral_Bit0_eq_double zero_neq_numeral)
  have b: "(numeral (Num.Bit1 n) :: nat) div 2 = numeral n"
    by (simp add: numeral_Bit1_div_2)
  show "bitLength (numeral (Num.Bit0 n)) = Suc (bitLength (numeral n))"
    by (subst bitLength.simps) (simp only: a, simp)
  show "bitLength (numeral (Num.Bit1 n)) = Suc (bitLength (numeral n))"
    by (subst bitLength.simps) (simp only: b, simp)
qed

lemmas number_eval =
  roundToDouble_def floorLog2_def powInt_def roundHalfEven_def Let_def

lemmas parseFloat_eval =
  parseFloat_def splitSign_def trimStart_def isWhiteSpace_def startsWith_def isDigit_def
  digitsToNat_def exponentPart_def

lemma isNaN_roundToDouble: "\<not> isNaN (roundToDouble x)"
  by (simp add: roundToDouble_def isNaN_def Let_def)

lemma parseFloat_undefined: "parseFloat ''undefined'' = NaN"
  by (simp add: parseFloat_eval)

subsection \<open>Rounding is to nearest\<close>

text \<open>
  \<^const>\<open>floorLog2\<close> is the binary exponent of a positive real, and a finite result of
  \<^const>\<open>roundToDouble\<close> is a multiple of the spacing \<open>2^q\<close> at its argument, by a
  significand of at most 53 bits, and lies within half that spacing of the argument.
\<close>

lemma bitLength_upper: "n < 2 ^ bitLength n"
proof (induction n rule: bitLength.induct)
  case (1 n)
  show ?case
  proof (cases "n = 0")
    case True
    then show ?thesis by (simp add: bitLength.simps)
  next
    case False
    then have "n div 2 < 2 ^ bitLength (n div 2)" by (rule "1.IH")
    then have "n < 2 * 2 ^ bitLength (n div 2)" by linarith
    with False show ?thesis by (subst bitLength.simps) simp
  qed
qed

lemma bitLength_lower: "0 < n \<Longrightarrow> 2 ^ (bitLength n - 1) \<le> n"
proof (induction n rule: bitLength.induct)
  case (1 n)
  then have nz: "n \<noteq> 0" by simp
  show ?case
  proof (cases "n div 2 = 0")
    case True
    with nz have "n = 1" by presburger
    then show ?thesis by (simp add: bitLength.simps)
  next
    case False
    then have ih: "2 ^ (bitLength (n div 2) - 1) \<le> n div 2"
      using "1.IH" [OF nz] by simp
    from False have "bitLength (n div 2) \<noteq> 0"
      by (subst bitLength.simps) simp
    then have "bitLength n - 1 = Suc (bitLength (n div 2) - 1)"
      using nz by (subst bitLength.simps) simp
    moreover have "2 * 2 ^ (bitLength (n div 2) - 1) \<le> n"
      using ih by linarith
    ultimately show ?thesis by simp
  qed
qed

lemma real_bitLength_lower: "0 < n \<Longrightarrow> (2::real) ^ (bitLength n - 1) \<le> real n"
proof -
  assume "0 < n"
  then have "real (2 ^ (bitLength n - 1)) \<le> real n"
    using bitLength_lower [of n] by (simp only: of_nat_le_iff)
  then show ?thesis by simp
qed

lemma real_bitLength_upper: "real n + 1 \<le> 2 ^ bitLength n"
proof -
  have "n + 1 \<le> 2 ^ bitLength n"
    using bitLength_upper [of n] by simp
  then have "real (n + 1) \<le> real (2 ^ bitLength n)"
    by (simp only: of_nat_le_iff)
  then show ?thesis by simp
qed

lemma bitLength_pos: "0 < n \<Longrightarrow> 0 < bitLength n"
  by (subst bitLength.simps) simp

lemma floorLog2_bounds:
  assumes "0 < x"
  shows "powInt 2 (floorLog2 x) \<le> x \<and> x < powInt 2 (floorLog2 x + 1)"
proof (cases "1 \<le> x")
  case True
  define n where "n = nat \<lfloor>x\<rfloor>"
  have n: "0 < n" "real n \<le> x" "x < real n + 1"
    using True by (auto simp: n_def)
  have e: "floorLog2 x = int (bitLength n) - 1"
    using True by (simp add: floorLog2_def n_def)
  have bl: "0 < bitLength n"
    using n(1) by (rule bitLength_pos)
  have p1: "2 ^ (bitLength n - 1) \<le> x"
    using real_bitLength_lower [OF n(1)] n(2) by linarith
  have p2: "x < 2 ^ bitLength n"
    using real_bitLength_upper [of n] n(3) by linarith
  have "powInt 2 (floorLog2 x) = 2 ^ (bitLength n - 1)"
    using bl by (simp add: e powInt_def nat_diff_distrib)
  moreover have "powInt 2 (floorLog2 x + 1) = 2 ^ bitLength n"
    by (simp add: e powInt_def)
  ultimately show ?thesis
    using p1 p2 by (simp only:)
next
  case False
  define y where "y = 1 / x"
  define m where "m = nat (\<lceil>y\<rceil> - 1)"
  have y: "1 < y" using False assms by (simp add: y_def)
  then have c: "2 \<le> \<lceil>y\<rceil>" by linarith
  have m: "0 < m" "real m < y" "y \<le> real m + 1"
    using c by (auto simp: m_def) linarith+
  have e: "floorLog2 x = - int (bitLength m)"
    using False by (simp add: floorLog2_def m_def y_def)
  have bl: "0 < bitLength m"
    using m(1) by (rule bitLength_pos)
  have x: "x = 1 / y" using assms by (simp add: y_def)
  have y1: "y \<le> 2 ^ bitLength m"
    using m(3) real_bitLength_upper [of m] by linarith
  have y2: "2 ^ (bitLength m - 1) < y"
    using m(2) real_bitLength_lower [OF m(1)] by linarith
  have p1: "1 / 2 ^ bitLength m \<le> x"
    unfolding x using y y1 by (simp add: field_simps)
  have p2: "x < 1 / 2 ^ (bitLength m - 1)"
    unfolding x using y y2 by (simp add: field_simps)
  have q1: "powInt 2 (floorLog2 x) = 1 / 2 ^ bitLength m"
    using bl by (simp add: e powInt_def)
  have q2: "powInt 2 (floorLog2 x + 1) = 1 / 2 ^ (bitLength m - 1)"
  proof (cases "bitLength m = 1")
    case True
    then show ?thesis by (simp add: e powInt_def)
  next
    case False
    with bl have "\<not> 0 \<le> - int (bitLength m) + 1"
      and "nat (int (bitLength m) - 1) = bitLength m - 1"
      by simp_all
    then show ?thesis by (simp add: e powInt_def)
  qed
  from p1 p2 show ?thesis
    by (simp only: q1 q2)
qed

lemma powInt_powi: "powInt b k = b powi k"
  by (simp add: powInt_def power_int_def divide_inverse power_inverse)

lemma roundHalfEven_near: "\<bar>real_of_int (roundHalfEven v) - v\<bar> \<le> 1 / 2"
  unfolding roundHalfEven_def Let_def
  by (auto split: if_splits)

lemma roundHalfEven_mono_bound:
  assumes "0 \<le> v" "v < real_of_int k"
  shows "0 \<le> roundHalfEven v \<and> roundHalfEven v \<le> k"
proof -
  have "0 \<le> \<lfloor>v\<rfloor>" "\<lfloor>v\<rfloor> < k"
    using assms by (simp_all add: floor_less_iff)
  then show ?thesis
    by (auto simp: roundHalfEven_def Let_def)
qed

lemma roundToDouble_nearest:
  assumes "x \<noteq> 0" and "roundToDouble x = Finite y"
  defines "q \<equiv> max (floorLog2 \<bar>x\<bar>) (- 1022) - 52"
  shows "\<exists>m. y = of_int m * powInt 2 q \<and> \<bar>m\<bar> \<le> 2 ^ 53 \<and> \<bar>y - x\<bar> \<le> powInt 2 q / 2"
proof -
  define a where "a = \<bar>x\<bar>"
  define v where "v = a / powInt 2 q"
  define m where "m = roundHalfEven v"
  have a: "0 < a" using assms(1) by (simp add: a_def)
  have pq: "0 < powInt 2 q" by (simp add: powInt_powi)
  have v0: "0 \<le> v" using a pq by (simp add: v_def)
  have "a < powInt 2 (floorLog2 a + 1)"
    using floorLog2_bounds [OF a] by simp
  also have "\<dots> \<le> powInt 2 (q + 53)"
    unfolding powInt_powi q_def a_def by (intro power_int_increasing) auto
  also have "\<dots> = 2 ^ 53 * powInt 2 q"
    by (simp add: powInt_powi power_int_add)
  finally have "v < 2 ^ 53"
    using pq by (simp add: v_def field_simps)
  then have "v < real_of_int (2 ^ 53)" by simp
  with v0 have mb: "0 \<le> m \<and> m \<le> 2 ^ 53"
    unfolding m_def by (rule roundHalfEven_mono_bound)
  have y: "y = (if x < 0 then - (of_int m * powInt 2 q) else of_int m * powInt 2 q)"
    using assms(1,2)
    by (simp add: roundToDouble_def Let_def m_def v_def a_def q_def split: if_splits)
  have "\<bar>of_int m - v\<bar> \<le> 1 / 2"
    unfolding m_def by (rule roundHalfEven_near)
  then have "\<bar>of_int m - v\<bar> * powInt 2 q \<le> 1 / 2 * powInt 2 q"
    using pq by (intro mult_right_mono) auto
  moreover have "\<bar>of_int m - v\<bar> * powInt 2 q = \<bar>of_int m * powInt 2 q - a\<bar>"
  proof -
    have "v * powInt 2 q = a" using pq by (simp add: v_def)
    then have "of_int m * powInt 2 q - a = (of_int m - v) * powInt 2 q"
      by (simp add: algebra_simps)
    then show ?thesis using pq by (simp add: abs_mult)
  qed
  ultimately have near: "\<bar>of_int m * powInt 2 q - a\<bar> \<le> powInt 2 q / 2" by simp
  show ?thesis
  proof (cases "x < 0")
    case True
    with y have "y = of_int (- m) * powInt 2 q" by simp
    moreover have "\<bar>- m\<bar> \<le> 2 ^ 53" using mb by simp
    moreover have "\<bar>y - x\<bar> = \<bar>of_int m * powInt 2 q - a\<bar>"
      using True y by (simp add: a_def abs_minus_commute [of "- (real_of_int m * powInt 2 q)" x])
    then have "\<bar>y - x\<bar> \<le> powInt 2 q / 2"
      using near by simp
    ultimately show ?thesis by blast
  next
    case False
    with y have "y = of_int m * powInt 2 q" by simp
    moreover have "\<bar>m\<bar> \<le> 2 ^ 53" using mb by simp
    moreover have "\<bar>y - x\<bar> \<le> powInt 2 q / 2"
      using near False y by (simp add: a_def)
    ultimately show ?thesis by blast
  qed
qed

section \<open>The data URL\<close>

text \<open>
  Claim C4, as the code has it.  For a URL \<^verbatim>\<open>data:\<close> header \<^verbatim>\<open>,\<close> payload, whose header
  holds no comma and splits on \<^verbatim>\<open>;\<close> into the segments \<open>seg # segs\<close>: the media
  type is the first segment (\<^verbatim>\<open>text/plain\<close> when that is empty), the payload is what
  follows the comma, and the base64 flag is set if and only if the token \<^verbatim>\<open>base64\<close> is
  one of the segments, the first one included.
\<close>

theorem parseDataUrl_flag:
  assumes comma: "CHR '','' \<notin> set hdr"
    and segs: "split_str hdr (CHR '';'') = seg # segs"
  shows "parseDataUrl (''data:'' @ hdr @ CHR '','' # pl) =
           Inr \<lparr>mime = (if seg = [] then ''text/plain'' else seg),
                isBase64 = (seg = ''base64'' \<or> ''base64'' \<in> set segs),
                payload = pl\<rparr>"
proof -
  let ?url = "''data:'' @ hdr @ CHR '','' # pl"
  have sw: "startsWith ?url ''data:''"
    by (simp add: startsWith_def)
  have "CHR '','' \<notin> set (''data:'' @ hdr)"
    using comma by simp
  then have "indexOf ((''data:'' @ hdr) @ CHR '','' # pl) (CHR '','') =
      int (length (''data:'' @ hdr))"
    by (rule indexOf_first)
  then have idx: "indexOf ?url (CHR '','') = 5 + int (length hdr)"
    by simp
  have "substring (''data:'' @ hdr @ (CHR '','' # pl)) (int (length ''data:''))
          (int (length ''data:'') + int (length hdr)) = hdr"
    by (rule substring_middle)
  then have hd: "substring ?url 5 (5 + int (length hdr)) = hdr"
    by simp
  have "substringFrom ((''data:'' @ hdr @ [CHR '','']) @ pl)
          (int (length (''data:'' @ hdr @ [CHR '','']))) = pl"
    by (rule substringFrom_suffix)
  then have pl: "substringFrom ?url (5 + int (length hdr) + 1) = pl"
    by (simp add: add.commute add.left_commute)
  show ?thesis
    unfolding parseDataUrl_def
    by (simp only: sw idx hd pl segs Let_def elemAt_0) auto
qed

text \<open>The theorem at \<^verbatim>\<open>data:text/csv;charset=utf-8;base64,QSxC\<close>.\<close>

theorem parseDataUrl_flag_witness:
  "parseDataUrl ''data:text/csv;charset=utf-8;base64,QSxC'' =
     Inr \<lparr>mime = ''text/csv'', isBase64 = True, payload = ''QSxC''\<rparr>"
  using parseDataUrl_flag [of "''text/csv;charset=utf-8;base64''" "''text/csv''"
      "[''charset=utf-8'', ''base64'']" "''QSxC''"]
  by simp

text \<open>
  Claim C4 as the specification words it fails: in \<^verbatim>\<open>data:base64,QSxC\<close> the only segment
  of the header is \<^verbatim>\<open>base64\<close>; it is the media type, and the flag is set all the same.
\<close>

theorem parseDataUrl_flag_counterexample:
  "parseDataUrl ''data:base64,QSxC'' =
     Inr \<lparr>mime = ''base64'', isBase64 = True, payload = ''QSxC''\<rparr>"
  by code_simp

section \<open>The media type\<close>

text \<open>
  Claim C2, as the code has it.  Decoding the parts of a data URL fails with the
  media-type error exactly when the media type contains neither \<^verbatim>\<open>csv\<close> nor \<^verbatim>\<open>text\<close> as
  a substring, the letters compared as they stand (the check is case-sensitive).
\<close>

theorem decodePayload_mime:
  "decodePayload plat parts = Inl InvalidMimeType \<longleftrightarrow>
     \<not> (\<exists>a b. mime parts = a @ ''csv'' @ b) \<and> \<not> (\<exists>a b. mime parts = a @ ''text'' @ b)"
  by (simp add: decodePayload_def decodeBase64ToText_def includes_str_iff
      split: option.splits)

text \<open>The theorem at the media type \<^verbatim>\<open>application/json\<close>, which is refused.\<close>

theorem decodePayload_mime_witness:
  "decodePayload standInBrowser \<lparr>mime = ''application/json'', isBase64 = False, payload = ''a,b''\<rparr>
     = Inl InvalidMimeType"
proof -
  have "\<not> includes_str ''application/json'' ''csv''" "\<not> includes_str ''application/json'' ''text''"
    by code_simp+
  then show ?thesis
    using decodePayload_mime [of standInBrowser
        "\<lparr>mime = ''application/json'', isBase64 = False, payload = ''a,b''\<rparr>"]
    by (simp add: includes_str_iff)
qed

text \<open>
  Claim C2 as the specification words it fails: the media type \<^verbatim>\<open>TEXT/CSV\<close> is refused,
  since no lower-case \<^verbatim>\<open>csv\<close> or \<^verbatim>\<open>text\<close> occurs in it.
\<close>

theorem decodePayload_mime_counterexample:
  "decodePayload standInBrowser \<lparr>mime = ''TEXT/CSV'', isBase64 = False, payload = ''a,b''\<rparr>
     = Inl InvalidMimeType"
  by code_simp

section \<open>The parser\<close>

lemma detectDelimiter_eq:
  "detectDelimiter line =
     (let c = countMatches line (CHR '','');
          s = countMatches line (CHR '';'');
          t = countMatches line (CHR 0x09)
      in if s \<le> c \<and> t \<le> c then CHR '',''
         else if t \<le> s then CHR '';'' else CHR 0x09)"
  by (auto simp: detectDelimiter_def delimiters_def detectStep_def Let_def)

lemma csvLines_parse:
  assumes "csvLines text = l # ls"
  shows "parseCsv text =
     (let parsed = map (parseLine (detectDelimiter l)) (l # ls)
      in if list_all (\<lambda>cell. isNaN (parseFloat cell)) (hd parsed)
         then Inr \<lparr>headers = Some (hd parsed), rows = tl parsed\<rparr>
         else Inr \<lparr>headers = None, rows = parsed\<rparr>)"
  using assms by (simp add: parseCsv_def Let_def elemAt_def)

text \<open>
  Claim C10.  \<^const>\<open>parseCsv\<close> returns a table for every text: neither \<^verbatim>\<open>lines[0]\<close> nor
  \<^verbatim>\<open>rows[0]\<close> is ever read on an empty array, and nothing else in it can throw.
\<close>

theorem parseCsv_total: "\<exists>t. parseCsv text = Inr t"
proof (cases "csvLines text")
  case Nil
  then show ?thesis by (simp add: parseCsv_def)
next
  case (Cons l ls)
  then show ?thesis by (simp add: csvLines_parse Let_def)
qed

text \<open>The theorem at a text with a stray quote, a blank line and rows shorter than the header.\<close>

theorem parseCsv_total_witness:
  "parseCsv (''a,'' @ [dquote] @ ''b\<newline>c;d;e\<newline>\<newline>f'') =
     Inr \<lparr>headers = Some [''a'', [dquote] @ ''b''], rows = [[''c;d;e''], [''f'']]\<rparr>"
proof -
  obtain t where t: "parseCsv (''a,'' @ [dquote] @ ''b\<newline>c;d;e\<newline>\<newline>f'') = Inr t"
    using parseCsv_total [of "''a,'' @ [dquote] @ ''b\<newline>c;d;e\<newline>\<newline>f''"] by blast
  have "parseCsv (''a,'' @ [dquote] @ ''b\<newline>c;d;e\<newline>\<newline>f'') \<noteq> Inl TypeError"
    using t by simp
  moreover have "parseCsv (''a,'' @ [dquote] @ ''b\<newline>c;d;e\<newline>\<newline>f'') =
     Inr \<lparr>headers = Some [''a'', [dquote] @ ''b''], rows = [[''c;d;e''], [''f'']]\<rparr>"
    by code_simp
  ultimately show ?thesis by simp
qed

text \<open>
  Claim C3, as the code has it.  The delimiter is inferred from the first line that is
  not blank, by counting commas, semicolons and tabs in that line only, and every line is
  split on it.  The candidate with the highest count is chosen; among candidates that
  share the highest count the earliest in the order comma, semicolon, tab is chosen.  So
  the comma is chosen when all counts are zero and whenever it ties for the highest count,
  and the semicolon is chosen when semicolon and tab tie above the comma.
\<close>

theorem delimiter_inference:
  assumes "csvLines text = l # ls"
  shows "(\<exists>t. parseCsv text = Inr t \<and>
            (case headers t of None \<Rightarrow> rows t | Some h \<Rightarrow> h # rows t) =
              map (parseLine (detectDelimiter l)) (l # ls)) \<and>
         detectDelimiter l =
           (let c = countMatches l (CHR '','');
                s = countMatches l (CHR '';'');
                t = countMatches l (CHR 0x09)
            in if s \<le> c \<and> t \<le> c then CHR '',''
               else if t \<le> s then CHR '';'' else CHR 0x09)"
proof
  show "\<exists>t. parseCsv text = Inr t \<and>
            (case headers t of None \<Rightarrow> rows t | Some h \<Rightarrow> h # rows t) =
              map (parseLine (detectDelimiter l)) (l # ls)"
    by (simp add: csvLines_parse [OF assms] Let_def)
  show "detectDelimiter l =
           (let c = countMatches l (CHR '','');
                s = countMatches l (CHR '';'');
                t = countMatches l (CHR 0x09)
            in if s \<le> c \<and> t \<le> c then CHR '',''
               else if t \<le> s then CHR '';'' else CHR 0x09)"
    by (rule detectDelimiter_eq)
qed

text \<open>The theorem at the first line \<^verbatim>\<open>a,b;c,d,e\<close>: three commas, one semicolon.\<close>

theorem delimiter_inference_witness:
  "detectDelimiter ''a,b;c,d,e'' = CHR '','' \<and>
   parseCsv ''a,b;c,d,e\<newline>1;2;3;4;5;6\<newline>'' =
     Inr \<lparr>headers = Some [''a'', ''b;c'', ''d'', ''e''], rows = [[''1;2;3;4;5;6'']]\<rparr>"
proof -
  have l: "csvLines ''a,b;c,d,e\<newline>1;2;3;4;5;6\<newline>'' = [''a,b;c,d,e'', ''1;2;3;4;5;6'']"
    by code_simp
  have d: "detectDelimiter ''a,b;c,d,e'' = CHR '',''"
    using delimiter_inference [OF l, THEN conjunct2] by (simp add: countMatches_def)
  have p: "parseCsv ''a,b;c,d,e\<newline>1;2;3;4;5;6\<newline>'' =
     Inr \<lparr>headers = Some [''a'', ''b;c'', ''d'', ''e''], rows = [[''1;2;3;4;5;6'']]\<rparr>"
    by code_simp
  from d p show ?thesis by simp
qed

text \<open>
  Claim C3 as the specification words it fails: in a first line with one semicolon, one
  tab and no comma the semicolon is chosen, not the comma.
\<close>

theorem delimiter_inference_counterexample:
  "countMatches (''a;b'' @ [CHR 0x09] @ ''c'') (CHR '','') = 0 \<and>
   countMatches (''a;b'' @ [CHR 0x09] @ ''c'') (CHR '';'') = 1 \<and>
   countMatches (''a;b'' @ [CHR 0x09] @ ''c'') (CHR 0x09) = 1 \<and>
   detectDelimiter (''a;b'' @ [CHR 0x09] @ ''c'') = CHR '';'' \<and>
   parseCsv (''a;b'' @ [CHR 0x09] @ ''c'') =
     Inr \<lparr>headers = Some [''a'', ''b'' @ [CHR 0x09] @ ''c''], rows = []\<rparr>"
  by code_simp

text \<open>
  Claim C9.  A line is split on the delimiter, and each field that is wrapped in a pair
  of double quotes (at least two characters, the first and the last a double quote) loses
  the two outer quotes and has every doubled quote inside replaced by a single one; any
  other field is kept as it is.  The field \<^verbatim>\<open>"12""3""\<close> becomes \<^verbatim>\<open>12"3"\<close>.
\<close>

theorem unquote_fields:
  "parseLine delimiter line =
     map (\<lambda>field.
            if 2 \<le> length field \<and> hd field = dquote \<and> last field = dquote
            then replacePair dquote dquote [dquote] (butlast (tl field))
            else field)
       (split_str line delimiter) \<and>
   unquoteField ([dquote] @ ''12'' @ [dquote, dquote] @ ''3'' @ [dquote, dquote]) =
     ''12'' @ [dquote] @ ''3'' @ [dquote]"
proof
  have "unquoteField field =
      (if 2 \<le> length field \<and> hd field = dquote \<and> last field = dquote
       then replacePair dquote dquote [dquote] (butlast (tl field))
       else field)" for field
  proof (cases "2 \<le> length field")
    case True
    then have "field \<noteq> []" by auto
    with True show ?thesis
      by (simp add: unquoteField_def startsWith_single endsWith_single substring_inner)
  next
    case False
    then consider "field = []" | c where "field = [c]"
      by (cases field; cases "tl field") auto
    then show ?thesis
    proof cases
      case 1
      then show ?thesis by (simp add: unquoteField_def startsWith_single)
    next
      case 2
      then show ?thesis
        by (simp add: unquoteField_def startsWith_single endsWith_single substring_single)
    qed
  qed
  then show "parseLine delimiter line =
     map (\<lambda>field.
            if 2 \<le> length field \<and> hd field = dquote \<and> last field = dquote
            then replacePair dquote dquote [dquote] (butlast (tl field))
            else field)
       (split_str line delimiter)"
    by (simp add: parseLine_def)
  show "unquoteField ([dquote] @ ''12'' @ [dquote, dquote] @ ''3'' @ [dquote, dquote]) =
     ''12'' @ [dquote] @ ''3'' @ [dquote]"
    by code_simp
qed

text \<open>
  The theorem at the line \<^verbatim>\<open>"a""b",c"d,"\<close>: a wrapped field, a field with a stray
  quote, and a field that is one quote.
\<close>

theorem unquote_fields_witness:
  "parseLine (CHR '','') ([dquote] @ ''a'' @ [dquote, dquote] @ ''b'' @ [dquote] @ '',c'' @ [dquote] @ ''d,'' @ [dquote]) =
     [''a'' @ [dquote] @ ''b'', ''c'' @ [dquote] @ ''d'', [dquote]]"
  using unquote_fields [of "CHR '',''" "[dquote] @ ''a'' @ [dquote, dquote] @ ''b'' @ [dquote] @ '',c'' @ [dquote] @ ''d,'' @ [dquote]", THEN conjunct1]
  by (simp add: dquote_def)

text \<open>
  Claim C6.  When the text has a line that is not blank, the first parsed row is taken as
  the header row (stored apart from the rows) if every field of it fails to parse as a
  number; if one field of it parses, there are no headers and the first row stays among
  the rows.
\<close>

theorem header_detection:
  assumes "csvLines text = l # ls"
  shows "((\<forall>cell \<in> set (parseLine (detectDelimiter l) l). isNaN (parseFloat cell)) \<longrightarrow>
            parseCsv text =
              Inr \<lparr>headers = Some (parseLine (detectDelimiter l) l),
                   rows = map (parseLine (detectDelimiter l)) ls\<rparr>) \<and>
         ((\<exists>cell \<in> set (parseLine (detectDelimiter l) l). \<not> isNaN (parseFloat cell)) \<longrightarrow>
            parseCsv text =
              Inr \<lparr>headers = None,
                   rows = map (parseLine (detectDelimiter l)) (l # ls)\<rparr>)"
proof -
  let ?first = "parseLine (detectDelimiter l) l"
  let ?rest = "map (parseLine (detectDelimiter l)) ls"
  have parsed: "parseCsv text =
      (if list_all (\<lambda>cell. isNaN (parseFloat cell)) ?first
       then Inr \<lparr>headers = Some ?first, rows = ?rest\<rparr>
       else Inr \<lparr>headers = None, rows = ?first # ?rest\<rparr>)"
    by (simp add: csvLines_parse [OF assms] Let_def)
  show ?thesis
  proof (cases "list_all (\<lambda>cell. isNaN (parseFloat cell)) ?first")
    case True
    then have "\<forall>cell \<in> set ?first. isNaN (parseFloat cell)"
      by (simp add: list_all_iff)
    with True parsed show ?thesis by auto
  next
    case False
    then have "\<exists>cell \<in> set ?first. \<not> isNaN (parseFloat cell)"
      by (simp add: list_all_iff)
    with False parsed show ?thesis by auto
  qed
qed

text \<open>
  The theorem at a text whose first row is \<^verbatim>\<open>Products,Sales\<close> and at one whose
  first row is \<^verbatim>\<open>Widget,7\<close>.
\<close>

theorem header_detection_witness:
  "parseCsv ''Products,Sales\<newline>Phones,1000\<newline>'' =
     Inr \<lparr>headers = Some [''Products'', ''Sales''], rows = [[''Phones'', ''1000'']]\<rparr> \<and>
   parseCsv ''Widget,7\<newline>Gadget,8\<newline>'' =
     Inr \<lparr>headers = None, rows = [[''Widget'', ''7''], [''Gadget'', ''8'']]\<rparr>"
proof -
  have l1: "csvLines ''Products,Sales\<newline>Phones,1000\<newline>'' = [''Products,Sales'', ''Phones,1000'']"
    by code_simp
  have r1: "parseLine (detectDelimiter ''Products,Sales'') ''Products,Sales'' = [''Products'', ''Sales'']"
    "parseLine (detectDelimiter ''Products,Sales'') ''Phones,1000'' = [''Phones'', ''1000'']"
    by code_simp+
  have n1: "isNaN (parseFloat ''Products'')" "isNaN (parseFloat ''Sales'')"
    by (simp_all add: parseFloat_eval isNaN_def)
  have one: "parseCsv ''Products,Sales\<newline>Phones,1000\<newline>'' =
     Inr \<lparr>headers = Some [''Products'', ''Sales''], rows = [[''Phones'', ''1000'']]\<rparr>"
    using header_detection [OF l1, THEN conjunct1] n1 by (simp add: r1)
  have l2: "csvLines ''Widget,7\<newline>Gadget,8\<newline>'' = [''Widget,7'', ''Gadget,8'']"
    by code_simp
  have r2: "parseLine (detectDelimiter ''Widget,7'') ''Widget,7'' = [''Widget'', ''7'']"
    "parseLine (detectDelimiter ''Widget,7'') ''Gadget,8'' = [''Gadget'', ''8'']"
    by code_simp+
  have n2: "\<not> isNaN (parseFloat ''7'')"
    by (simp add: parseFloat_eval isNaN_roundToDouble)
  have two: "parseCsv ''Widget,7\<newline>Gadget,8\<newline>'' =
     Inr \<lparr>headers = None, rows = [[''Widget'', ''7''], [''Gadget'', ''8'']]\<rparr>"
    using header_detection [OF l2, THEN conjunct2] n2 r2 by simp
  from one two show ?thesis by simp
qed

section \<open>The sales column\<close>

lemma findIndex_ge: "- 1 \<le> findIndex P xs"
  by (induction xs) (auto simp: Let_def)

lemma findIndex_none: "findIndex P xs = - 1 \<longleftrightarrow> (\<forall>x \<in> set xs. \<not> P x)"
proof (induction xs)
  case Nil
  then show ?case by simp
next
  case (Cons x xs)
  have "findIndex P xs + 1 \<noteq> - 1"
    using findIndex_ge [of P xs] by linarith
  with Cons show ?case by (auto simp: Let_def)
qed

lemma findIndex_first:
  "i < length xs \<Longrightarrow> P (xs ! i) \<Longrightarrow> (\<forall>j<i. \<not> P (xs ! j)) \<Longrightarrow> findIndex P xs = int i"
proof (induction xs arbitrary: i)
  case Nil
  then show ?case by simp
next
  case (Cons x xs)
  show ?case
  proof (cases i)
    case 0
    with Cons.prems show ?thesis by simp
  next
    case (Suc k)
    with Cons.prems have nx: "\<not> P x" by auto
    from Suc Cons.prems have "k < length xs" "P (xs ! k)" "\<forall>j<k. \<not> P (xs ! j)"
      by auto
    then have "findIndex P xs = int k" by (rule Cons.IH)
    with nx Suc show ?thesis by (simp add: Let_def)
  qed
qed

lemma scanColumns_found:
  "scanColumns rs n i = k \<Longrightarrow> k \<noteq> - 1 \<Longrightarrow> i \<le> k \<and> k < n \<and> columnIsNumeric rs k"
proof (induction rs n i rule: scanColumns.induct)
  case (1 rs n i)
  show ?case
  proof (cases "i < n")
    case False
    with "1.prems" show ?thesis by (simp add: scanColumns.simps)
  next
    case True
    show ?thesis
    proof (cases "columnIsNumeric rs i")
      case num: True
      with True "1.prems" show ?thesis by (simp add: scanColumns.simps)
    next
      case nonnum: False
      with True "1.prems" have "scanColumns rs n (i + 1) = k"
        by (simp add: scanColumns.simps)
      with "1.IH" [OF True nonnum] "1.prems" show ?thesis by simp
    qed
  qed
qed

lemma scanColumns_none:
  "scanColumns rs n i = - 1 \<Longrightarrow> 0 \<le> i \<Longrightarrow> i \<le> j \<Longrightarrow> j < n \<Longrightarrow> \<not> columnIsNumeric rs j"
proof (induction rs n i rule: scanColumns.induct)
  case (1 rs n i)
  from "1.prems" have lt: "i < n" by simp
  show ?case
  proof (cases "columnIsNumeric rs i")
    case True
    with lt "1.prems" show ?thesis by (simp add: scanColumns.simps)
  next
    case False
    with lt "1.prems" have next_none: "scanColumns rs n (i + 1) = - 1"
      by (simp add: scanColumns.simps)
    show ?thesis
    proof (cases "j = i")
      case True
      with False show ?thesis by simp
    next
      case False
      with "1.prems" have "i + 1 \<le> j" by simp
      with "1.IH" [OF lt \<open>\<not> columnIsNumeric rs i\<close> next_none] "1.prems" show ?thesis
        by simp
    qed
  qed
qed

lemma scanColumns_first:
  "i \<le> k \<Longrightarrow> k < n \<Longrightarrow> columnIsNumeric rs k \<Longrightarrow>
   (\<forall>j. i \<le> j \<and> j < k \<longrightarrow> \<not> columnIsNumeric rs j) \<Longrightarrow> scanColumns rs n i = k"
proof (induction rs n i rule: scanColumns.induct)
  case (1 rs n i)
  from "1.prems" have lt: "i < n" by simp
  show ?case
  proof (cases "i = k")
    case True
    with lt "1.prems" show ?thesis by (simp add: scanColumns.simps)
  next
    case False
    with "1.prems" have nonnum: "\<not> columnIsNumeric rs i" by simp
    from False "1.prems" have "i + 1 \<le> k" by simp
    moreover from "1.prems" have "\<forall>j. i + 1 \<le> j \<and> j < k \<longrightarrow> \<not> columnIsNumeric rs j"
      by simp
    ultimately have "scanColumns rs n (i + 1) = k"
      using "1.IH" [OF lt nonnum] "1.prems" by simp
    with lt nonnum show ?thesis by (simp add: scanColumns.simps)
  qed
qed

lemma columnIsNumeric_range:
  assumes "columnIsNumeric (r # rs) j"
  shows "0 \<le> j \<and> j < int (length r)"
proof (rule ccontr)
  assume "\<not> (0 \<le> j \<and> j < int (length r))"
  then have "elemAt r j = None" by (simp add: elemAt_def)
  then have "isNaN (cellNumber r j)"
    by (simp add: cellNumber_def toStringCell_def parseFloat_undefined isNaN_def)
  with assms show False by (simp add: columnIsNumeric_def)
qed

lemma findSalesColumn_by_name:
  assumes "headers t = Some hs" "findIndex headerMatches hs \<noteq> - 1"
  shows "findSalesColumn t = Inr (findIndex headerMatches hs)"
  using assms by (simp add: findSalesColumn_def)

lemma findSalesColumn_fallback:
  assumes "\<forall>hs. headers t = Some hs \<longrightarrow> (\<forall>h \<in> set hs. \<not> headerMatches h)"
  shows "findSalesColumn t =
     (case rows t of
        [] \<Rightarrow> Inl NoSalesColumn
      | row0 # _ \<Rightarrow>
          if scanColumns (rows t) (int (length row0)) 0 = - 1 then Inl NoSalesColumn
          else Inr (scanColumns (rows t) (int (length row0)) 0))"
proof -
  have "(case headers t of None \<Rightarrow> - 1 | Some hs \<Rightarrow> findIndex headerMatches hs) = - 1"
    using assms by (cases "headers t") (simp_all add: findIndex_none)
  then show ?thesis
    by (cases "rows t") (simp_all add: findSalesColumn_def Let_def elemAt_0)
qed

text \<open>
  Claim C5, as the code has it.  When headers are present, the index of the first header
  whose lower-cased text contains \<^verbatim>\<open>sales\<close> or \<^verbatim>\<open>sale\<close> is selected.  When no header
  matched (or there are no headers) and the table has at least one row, the first column
  index at which the field of every row parses as a number is selected.  The search
  fails with the no-sales-column error exactly when no header matched and either there is
  no row or no column has a number in every row.
\<close>

theorem sales_column:
  "(\<forall>hs i. headers t = Some hs \<and> i < length hs \<and> headerMatches (hs ! i) \<and>
        (\<forall>j<i. \<not> headerMatches (hs ! j)) \<longrightarrow>
      findSalesColumn t = Inr (int i)) \<and>
   (\<forall>i. (\<forall>hs. headers t = Some hs \<longrightarrow> (\<forall>h \<in> set hs. \<not> headerMatches h)) \<and>
        rows t \<noteq> [] \<and> columnIsNumeric (rows t) (int i) \<and>
        (\<forall>j<i. \<not> columnIsNumeric (rows t) (int j)) \<longrightarrow>
      findSalesColumn t = Inr (int i)) \<and>
   (findSalesColumn t = Inl NoSalesColumn \<longleftrightarrow>
      (\<forall>hs. headers t = Some hs \<longrightarrow> (\<forall>h \<in> set hs. \<not> headerMatches h)) \<and>
      (rows t = [] \<or> (\<forall>i. \<not> columnIsNumeric (rows t) (int i))))"
proof (intro conjI allI impI)
  fix hs i
  assume a: "headers t = Some hs \<and> i < length hs \<and> headerMatches (hs ! i) \<and>
        (\<forall>j<i. \<not> headerMatches (hs ! j))"
  then have "findIndex headerMatches hs = int i"
    by (intro findIndex_first) auto
  with a show "findSalesColumn t = Inr (int i)"
    by (simp add: findSalesColumn_by_name)
next
  fix i
  assume a: "(\<forall>hs. headers t = Some hs \<longrightarrow> (\<forall>h \<in> set hs. \<not> headerMatches h)) \<and>
        rows t \<noteq> [] \<and> columnIsNumeric (rows t) (int i) \<and>
        (\<forall>j<i. \<not> columnIsNumeric (rows t) (int j))"
  then obtain r rs where rows: "rows t = r # rs"
    by (cases "rows t") auto
  from a rows have "int i < int (length r)"
    using columnIsNumeric_range [of r rs "int i"] by simp
  moreover have "\<forall>j. 0 \<le> j \<and> j < int i \<longrightarrow> \<not> columnIsNumeric (rows t) j"
  proof (intro allI impI)
    fix j :: int
    assume "0 \<le> j \<and> j < int i"
    then have "nat j < i" "int (nat j) = j" by auto
    with a show "\<not> columnIsNumeric (rows t) j" by metis
  qed
  ultimately have "scanColumns (rows t) (int (length r)) 0 = int i"
    using a by (intro scanColumns_first) auto
  with a rows show "findSalesColumn t = Inr (int i)"
    by (simp add: findSalesColumn_fallback)
next
  show "findSalesColumn t = Inl NoSalesColumn \<longleftrightarrow>
      (\<forall>hs. headers t = Some hs \<longrightarrow> (\<forall>h \<in> set hs. \<not> headerMatches h)) \<and>
      (rows t = [] \<or> (\<forall>i. \<not> columnIsNumeric (rows t) (int i)))"
  proof (cases "\<forall>hs. headers t = Some hs \<longrightarrow> (\<forall>h \<in> set hs. \<not> headerMatches h)")
    case False
    then obtain hs where hs: "headers t = Some hs" "\<not> (\<forall>h \<in> set hs. \<not> headerMatches h)"
      by blast
    then have "findIndex headerMatches hs \<noteq> - 1"
      by (simp add: findIndex_none)
    with hs have "findSalesColumn t = Inr (findIndex headerMatches hs)"
      by (simp add: findSalesColumn_by_name)
    with False show ?thesis by simp
  next
    case True
    note fb = findSalesColumn_fallback [OF True]
    show ?thesis
    proof (cases "rows t")
      case Nil
      with fb True show ?thesis by simp
    next
      case (Cons r rs)
      let ?k = "scanColumns (rows t) (int (length r)) 0"
      show ?thesis
      proof (cases "?k = - 1")
        case none: True
        have "\<not> columnIsNumeric (rows t) (int i)" for i
        proof (cases "int i < int (length r)")
          case True
          with none show ?thesis
            by (intro scanColumns_none [of "rows t" "int (length r)" 0]) auto
        next
          case False
          then show ?thesis
            using columnIsNumeric_range [of r rs "int i"] Cons by auto
        qed
        with fb Cons none True show ?thesis by simp
      next
        case some: False
        then have k: "0 \<le> ?k \<and> columnIsNumeric (rows t) ?k"
          using scanColumns_found [of "rows t" "int (length r)" 0 ?k] by simp
        then have "columnIsNumeric (rows t) (int (nat ?k))" by simp
        then have "\<not> (\<forall>i. \<not> columnIsNumeric (rows t) (int i))" by blast
        with fb Cons some show ?thesis by simp
      qed
    qed
  qed
qed

text \<open>
  The theorem at a table with a header \<^verbatim>\<open>Total Sales\<close>, at a table of numbers without
  headers, and at a table with no number in it.
\<close>

theorem sales_column_witness:
  "findSalesColumn \<lparr>headers = Some [''Products'', ''Total Sales''], rows = [[''Phones'', ''1000'']]\<rparr> = Inr 1 \<and>
   findSalesColumn \<lparr>headers = None, rows = [[''1'', ''2''], [''3'', ''4'']]\<rparr> = Inr 0 \<and>
   findSalesColumn \<lparr>headers = Some [''Item'', ''Colour''], rows = [[''Pen'', ''blue'']]\<rparr> = Inl NoSalesColumn"
proof -
  let ?t1 = "\<lparr>headers = Some [''Products'', ''Total Sales''], rows = [[''Phones'', ''1000'']]\<rparr>"
  let ?t2 = "\<lparr>headers = None, rows = [[''1'', ''2''], [''3'', ''4'']]\<rparr>"
  let ?t3 = "\<lparr>headers = Some [''Item'', ''Colour''], rows = [[''Pen'', ''blue'']]\<rparr>"
  have m1: "\<not> headerMatches ''Products''" and m2: "headerMatches ''Total Sales''"
    and m3: "\<not> headerMatches ''Item''" and m4: "\<not> headerMatches ''Colour''"
    by code_simp+
  have "findSalesColumn ?t1 = Inr (int 1)"
    using sales_column [of ?t1, THEN conjunct1, rule_format, of "[''Products'', ''Total Sales'']" 1]
      m1 m2 by simp
  then have one: "findSalesColumn ?t1 = Inr 1" by simp
  have n: "\<not> isNaN (parseFloat ''1'')" "\<not> isNaN (parseFloat ''3'')"
    by (simp_all add: parseFloat_eval isNaN_roundToDouble)
  have "findSalesColumn ?t2 = Inr (int 0)"
    using sales_column [of ?t2, THEN conjunct2, THEN conjunct1, rule_format, of 0] n
    by (simp add: columnIsNumeric_def cellNumber_def toStringCell_def elemAt_def)
  then have two: "findSalesColumn ?t2 = Inr 0" by simp
  have nn: "isNaN (parseFloat ''Pen'')" "isNaN (parseFloat ''blue'')"
    by (simp_all add: parseFloat_eval isNaN_def)
  have "\<not> columnIsNumeric [[''Pen'', ''blue'']] (int i)" for i
  proof
    assume c: "columnIsNumeric [[''Pen'', ''blue'']] (int i)"
    then have "int i < 2"
      using columnIsNumeric_range [of "[''Pen'', ''blue'']" "[]" "int i"] by simp
    then consider "i = 0" | "i = 1" by linarith
    then show False
      using c nn
      by cases (simp_all add: columnIsNumeric_def cellNumber_def toStringCell_def elemAt_def)
  qed
  then have three: "findSalesColumn ?t3 = Inl NoSalesColumn"
    using sales_column [of ?t3, THEN conjunct2, THEN conjunct2] m3 m4 by simp
  from one two three show ?thesis by simp
qed

text \<open>
  Claim C5 as the specification words it fails on the table parsed from the one line
  \<^verbatim>\<open>Item,Colour\<close>: no header matches, at column 0 the field of every row parses, there
  being no row, and yet the search fails.
\<close>

theorem sales_column_counterexample:
  "parseCsv ''Item,Colour'' = Inr \<lparr>headers = Some [''Item'', ''Colour''], rows = []\<rparr> \<and>
   columnIsNumeric (rows \<lparr>headers = Some [''Item'', ''Colour''], rows = []\<rparr>) 0 \<and>
   findSalesColumn \<lparr>headers = Some [''Item'', ''Colour''], rows = []\<rparr> = Inl NoSalesColumn"
proof -
  have "parseCsv ''Item,Colour'' = Inr \<lparr>headers = Some [''Item'', ''Colour''], rows = []\<rparr>"
    by code_simp
  moreover have "\<not> headerMatches ''Item''" "\<not> headerMatches ''Colour''"
    by code_simp+
  ultimately show ?thesis
    by (simp add: columnIsNumeric_def findSalesColumn_def)
qed

section \<open>The total\<close>

lemma foldl_addRow:
  "foldl (addRow idx) acc rs =
     foldl numberAdd acc (filter (\<lambda>v. \<not> isNaN v) (map (\<lambda>row. cellNumber row idx) rs))"
  by (induction rs arbitrary: acc) (simp_all add: addRow_def Let_def)

text \<open>
  Claim C8.  The total is the sum, taken in order from zero, of the numbers parsed from
  the fields at the selected index, over the rows where that field parses; a row where it
  does not parse leaves the total as it was and the rows after it are still added.
\<close>

theorem totalSales_skips:
  "totalSales rs idx =
     foldl numberAdd (Finite 0)
       (filter (\<lambda>v. \<not> isNaN v) (map (\<lambda>row. cellNumber row idx) rs)) \<and>
   (isNaN (cellNumber row idx) \<longrightarrow>
      totalSales (before @ row # after) idx = totalSales (before @ after) idx)"
proof
  show "totalSales rs idx =
     foldl numberAdd (Finite 0)
       (filter (\<lambda>v. \<not> isNaN v) (map (\<lambda>row. cellNumber row idx) rs))"
    by (simp add: totalSales_def foldl_addRow)
  show "isNaN (cellNumber row idx) \<longrightarrow>
      totalSales (before @ row # after) idx = totalSales (before @ after) idx"
    by (simp add: totalSales_def addRow_def)
qed

text \<open>The theorem at three rows, the second with \<^verbatim>\<open>N/A\<close> in the selected column.\<close>

theorem totalSales_skips_witness:
  "totalSales [[''Pens'', ''1.5''], [''Ink'', ''N/A''], [''Caps'', ''2'']] 1 = Finite (7 / 2) \<and>
   totalSales [[''Pens'', ''1.5''], [''Caps'', ''2'']] 1 = Finite (7 / 2)"
proof -
  have n: "isNaN (cellNumber [''Ink'', ''N/A''] 1)"
    by (simp add: cellNumber_def toStringCell_def elemAt_def isNaN_def parseFloat_eval)
  have eq: "totalSales ([[''Pens'', ''1.5'']] @ [''Ink'', ''N/A''] # [[''Caps'', ''2'']]) 1 =
      totalSales ([[''Pens'', ''1.5'']] @ [[''Caps'', ''2'']]) 1"
    using totalSales_skips [of "[[''Pens'', ''1.5'']] @ [[''Caps'', ''2'']]" 1 "[''Ink'', ''N/A'']"
        "[[''Pens'', ''1.5'']]" "[[''Caps'', ''2'']]", THEN conjunct2] n
    by blast
  have a: "parseFloat ''1.5'' = Finite (3 / 2)"
    by (simp add: parseFloat_eval number_eval)
  have b: "parseFloat ''2'' = Finite 2"
    by (simp add: parseFloat_eval number_eval)
  have "totalSales [[''Pens'', ''1.5''], [''Caps'', ''2'']] 1 = Finite (7 / 2)"
    by (simp add: totalSales_def addRow_def cellNumber_def toStringCell_def elemAt_def a b
        isNaN_def number_eval)
  with eq show ?thesis by simp
qed

section \<open>Blank input\<close>

lemma blank_text_no_lines:
  assumes "trim text = []"
  shows "csvLines text = []"
proof -
  have ws: "\<forall>c \<in> set text. isWhiteSpace c"
    using assms by (simp add: trim_empty_iff)
  have lf: "isWhiteSpace (CHR 0x0A)"
    by (simp add: isWhiteSpace_def)
  have "set (normalizeLineEndings text) \<subseteq> set text \<union> {CHR 0x0A}"
    using set_replaceChar [of "CHR 0x0D" "[CHR 0x0A]"
        "replacePair (CHR 0x0D) (CHR 0x0A) [CHR 0x0A] text"]
      set_replacePair [of "CHR 0x0D" "CHR 0x0A" "[CHR 0x0A]" "text"]
    unfolding normalizeLineEndings_def
    by auto
  with ws lf have n: "\<forall>c \<in> set (normalizeLineEndings text). isWhiteSpace c"
    by auto
  have "trim line = []" if "line \<in> set (split_str (normalizeLineEndings text) (CHR 0x0A))" for line
    using set_split_str [OF that] n by (auto simp: trim_empty_iff)
  then show ?thesis
    by (simp add: csvLines_def filter_empty_conv)
qed

text \<open>
  Claim C1, as the code has it.  For a text that is empty or holds white space only,
  \<^const>\<open>parseCsv\<close> returns a table with an empty list of headers and no rows; no sales
  column is found in it, so no total is computed: the run ends in the error
  \<^const>\<open>NoSalesColumn\<close> and the page shows the error message.
\<close>

theorem blank_input:
  assumes "trim text = []"
  shows "parseCsv text = Inr \<lparr>headers = Some [], rows = []\<rparr> \<and>
         processCsv text = Inl NoSalesColumn \<and>
         display plat (processCsv text) el =
           el\<lparr>textContent := ''Error loading data'',
              classList := insert ''error'' (classList el - {''loading'', ''success''})\<rparr>"
proof -
  have p: "parseCsv text = Inr \<lparr>headers = Some [], rows = []\<rparr>"
    using blank_text_no_lines [OF assms] by (simp add: parseCsv_def)
  have f: "findSalesColumn \<lparr>headers = Some [], rows = []\<rparr> = Inl NoSalesColumn"
    by (simp add: findSalesColumn_def)
  from p f have "processCsv text = Inl NoSalesColumn"
    by (simp add: processCsv_def)
  with p show ?thesis
    by (simp add: display_def showError_def)
qed

text \<open>The theorem at a text of a space, a line feed and a space.\<close>

theorem blank_input_witness:
  "processCsv '' \<newline> '' = Inl NoSalesColumn \<and>
   textContent (display standInBrowser (processCsv '' \<newline> '')
     \<lparr>textContent = ''Loading...'', classList = {''loading''}\<rparr>) = ''Error loading data''"
proof -
  have "trim '' \<newline> '' = []" by code_simp
  from blank_input [OF this, of standInBrowser "\<lparr>textContent = ''Loading...'', classList = {''loading''}\<rparr>"]
  show ?thesis by (simp add: display_def showError_def)
qed

text \<open>
  Claim C1 as the specification words it fails at the empty text: the outcome is an
  error, not the total 0.
\<close>

theorem blank_input_counterexample:
  "parseCsv [] = Inr \<lparr>headers = Some [], rows = []\<rparr> \<and>
   processCsv [] = Inl NoSalesColumn \<and>
   display standInBrowser (processCsv [])
     \<lparr>textContent = ''Loading...'', classList = {''loading''}\<rparr> =
     \<lparr>textContent = ''Error loading data'', classList = {''error''}\<rparr>"
  by code_simp

section \<open>The sample data\<close>

lemma sample_lines:
  "csvLines ''Products,Sales\<newline>Phones,1000\<newline>Books,123.45\<newline>Notebooks,111.11\<newline>'' =
     [''Products,Sales'', ''Phones,1000'', ''Books,123.45'', ''Notebooks,111.11'']"
  by code_simp

lemma sample_rows:
  "map (parseLine (detectDelimiter ''Products,Sales''))
     [''Products,Sales'', ''Phones,1000'', ''Books,123.45'', ''Notebooks,111.11''] =
   [[''Products'', ''Sales''], [''Phones'', ''1000''], [''Books'', ''123.45''],
    [''Notebooks'', ''111.11'']]"
  by code_simp

lemma sample_header_cells:
  "isNaN (parseFloat ''Products'')" "isNaN (parseFloat ''Sales'')"
  by (simp_all add: parseFloat_eval isNaN_def)

lemma sample_parse:
  "parseCsv ''Products,Sales\<newline>Phones,1000\<newline>Books,123.45\<newline>Notebooks,111.11\<newline>'' =
     Inr \<lparr>headers = Some [''Products'', ''Sales''],
          rows = [[''Phones'', ''1000''], [''Books'', ''123.45''], [''Notebooks'', ''111.11'']]\<rparr>"
  by (simp only: csvLines_parse [OF sample_lines] sample_rows Let_def)
     (simp add: sample_header_cells)

lemma sample_column:
  "findSalesColumn
     \<lparr>headers = Some [''Products'', ''Sales''],
      rows = [[''Phones'', ''1000''], [''Books'', ''123.45''], [''Notebooks'', ''111.11'']]\<rparr> = Inr 1"
proof -
  have "\<not> headerMatches ''Products''" "headerMatches ''Sales''"
    by code_simp+
  then show ?thesis
    by (simp add: findSalesColumn_def)
qed

lemma parseFloat_1000: "parseFloat ''1000'' = Finite 1000"
  by (simp add: parseFloat_eval number_eval)

lemma parseFloat_123_45: "parseFloat ''123.45'' = Finite (8687021468732621 / 70368744177664)"
  by (simp add: parseFloat_eval number_eval)

lemma parseFloat_111_11: "parseFloat ''111.11'' = Finite (7818671165580247 / 70368744177664)"
  by (simp add: parseFloat_eval number_eval)

lemma parseFloat_1234_56: "parseFloat ''1234.56'' = Finite (2714826150374277 / 2199023255552)"
  by (simp add: parseFloat_eval number_eval)

lemma sample_sum_1: "numberAdd (Finite 0) (Finite 1000) = Finite 1000"
  by (simp add: number_eval)

lemma sample_sum_2:
  "numberAdd (Finite 1000) (Finite (8687021468732621 / 70368744177664)) =
     Finite (4940985352899789 / 4398046511104)"
  by (simp add: number_eval)

lemma sample_sum_3:
  "numberAdd (Finite (4940985352899789 / 4398046511104))
     (Finite (7818671165580247 / 70368744177664)) =
     Finite (2714826150374277 / 2199023255552)"
  by (simp add: number_eval)

lemma sample_total:
  "totalSales [[''Phones'', ''1000''], [''Books'', ''123.45''], [''Notebooks'', ''111.11'']] 1 =
     Finite (2714826150374277 / 2199023255552)"
  by (simp add: totalSales_def addRow_def cellNumber_def toStringCell_def elemAt_def isNaN_def
      parseFloat_1000 parseFloat_123_45 parseFloat_111_11 sample_sum_1 sample_sum_2 sample_sum_3
      del: numberAdd.simps)

lemma sample_toFixed:
  "toFixed f (Finite (2714826150374277 / 2199023255552)) 2 = ''1234.56''"
  by (simp add: toFixed_def Let_def decimalDigits.simps digitChar_def)

text \<open>
  Claim C7.  The sample text parses into the headers \<^verbatim>\<open>Products\<close>,
  \<^verbatim>\<open>Sales\<close> and three rows; the column found is the one headed \<^verbatim>\<open>Sales\<close>; the
  total \<^verbatim>\<open>0 + 1000 + 123.45 + 111.11\<close>, added as Numbers, is the Number \<^verbatim>\<open>1234.56\<close>,
  and the page shows \<^verbatim>\<open>1234.56\<close>.
\<close>

theorem sample_sales:
  "parseCsv ''Products,Sales\<newline>Phones,1000\<newline>Books,123.45\<newline>Notebooks,111.11\<newline>'' =
     Inr \<lparr>headers = Some [''Products'', ''Sales''],
          rows = [[''Phones'', ''1000''], [''Books'', ''123.45''], [''Notebooks'', ''111.11'']]\<rparr> \<and>
   findSalesColumn
     \<lparr>headers = Some [''Products'', ''Sales''],
      rows = [[''Phones'', ''1000''], [''Books'', ''123.45''], [''Notebooks'', ''111.11'']]\<rparr> = Inr 1 \<and>
   numberAdd (numberAdd (numberAdd (Finite 0) (parseFloat ''1000'')) (parseFloat ''123.45''))
     (parseFloat ''111.11'') = parseFloat ''1234.56'' \<and>
   processCsv ''Products,Sales\<newline>Phones,1000\<newline>Books,123.45\<newline>Notebooks,111.11\<newline>'' =
     Inr (parseFloat ''1234.56'') \<and>
   toFixed (numberToString plat) (parseFloat ''1234.56'') 2 = ''1234.56'' \<and>
   display plat
     (processCsv ''Products,Sales\<newline>Phones,1000\<newline>Books,123.45\<newline>Notebooks,111.11\<newline>'') el =
     el\<lparr>textContent := ''1234.56'',
        classList := insert ''success'' (classList el - {''loading'', ''error''})\<rparr>"
proof -
  have p: "processCsv ''Products,Sales\<newline>Phones,1000\<newline>Books,123.45\<newline>Notebooks,111.11\<newline>'' =
     Inr (parseFloat ''1234.56'')"
    by (simp add: processCsv_def sample_parse sample_column sample_total parseFloat_1234_56)
  have s: "numberAdd (numberAdd (numberAdd (Finite 0) (parseFloat ''1000'')) (parseFloat ''123.45''))
     (parseFloat ''111.11'') = parseFloat ''1234.56''"
    by (simp only: parseFloat_1000 parseFloat_123_45 parseFloat_111_11 parseFloat_1234_56
        sample_sum_1 sample_sum_2 sample_sum_3)
  have t: "toFixed (numberToString plat) (parseFloat ''1234.56'') 2 = ''1234.56''"
    by (simp only: parseFloat_1234_56 sample_toFixed)
  have d: "display plat
     (processCsv ''Products,Sales\<newline>Phones,1000\<newline>Books,123.45\<newline>Notebooks,111.11\<newline>'') el =
     el\<lparr>textContent := ''1234.56'',
        classList := insert ''success'' (classList el - {''loading'', ''error''})\<rparr>"
    by (simp only: p display_def showSuccess_def t sum.case)
  from sample_parse sample_column s p t d show ?thesis
    by (intro conjI)
qed

text \<open>The theorem on a page that shows \<^verbatim>\<open>Loading...\<close>.\<close>

theorem sample_sales_witness:
  "display standInBrowser
     (processCsv ''Products,Sales\<newline>Phones,1000\<newline>Books,123.45\<newline>Notebooks,111.11\<newline>'')
     \<lparr>textContent = ''Loading...'', classList = {''loading''}\<rparr> =
   \<lparr>textContent = ''1234.56'', classList = {''success''}\<rparr>"
proof -
  note all = sample_sales [of standInBrowser
      "\<lparr>textContent = ''Loading...'', classList = {''loading''}\<rparr>"]
  note shown = all [THEN conjunct2, THEN conjunct2, THEN conjunct2, THEN conjunct2, THEN conjunct2]
  show ?thesis
    by (simp only: shown) simp
qed

end
